theory Spec2Isabelle
  imports Complex_Main
begin

section \<open>Occupancy grid generation: the notebook's functions as HOL functions\<close>

text \<open>
  The notebook \<^verbatim>\<open>occupancy_grid_generation.ipynb\<close> defines \<^verbatim>\<open>inverse_scanner\<close> and
  \<^verbatim>\<open>get_ranges\<close> and, in its main simulation loop, the log-odds update of the belief
  map. Python floats are modelled by real numbers: no rounding and no overflow. The
  special values that numpy produces where a real result does not exist (the logarithm of
  zero, a division by zero) are kept, in the type \<open>npfloat\<close> of the fusion step.
  Exceptions are values of the type \<open>error\<close>.
\<close>

subsection \<open>Errors, arrays and the numeric helpers of Python and numpy\<close>

datatype error = ValueError | IndexError

type_synonym grid = "real list list"

text \<open>\<^verbatim>\<open>np.zeros((rows, cols))\<close>.\<close>

definition np_zeros :: "nat \<Rightarrow> nat \<Rightarrow> grid" where
  "np_zeros rows cols = replicate rows (replicate cols 0)"

text \<open>\<^verbatim>\<open>np.shape(a)\<close> of a two-dimensional array stored as a list of rows.\<close>

definition np_shape :: "grid \<Rightarrow> nat \<times> nat" where
  "np_shape a = (length a, case a of [] \<Rightarrow> 0 | row # _ \<Rightarrow> length row)"

text \<open>An array of shape \<open>(M, N)\<close>: \<open>M\<close> rows, each of \<open>N\<close> entries.\<close>

definition has_shape :: "grid \<Rightarrow> nat \<Rightarrow> nat \<Rightarrow> bool" where
  "has_shape a M N = (length a = M \<and> list_all (\<lambda>row. length row = N) a)"

text \<open>
  The assignment \<^verbatim>\<open>m[i,j] = v\<close> with indices that are not negative: it raises
  IndexError outside the array.
\<close>

definition set_item :: "grid \<Rightarrow> nat \<Rightarrow> nat \<Rightarrow> real \<Rightarrow> error + grid" where
  "set_item m i j v =
     (if i < length m \<and> j < length (m ! i) then Inr (m[i := (m ! i)[j := v]])
      else Inl IndexError)"

text \<open>
  The read \<^verbatim>\<open>a[i, j]\<close> with integer indices: numpy counts a negative index from the
  end of the axis and raises IndexError outside \<open>-len \<le> i < len\<close>.
\<close>

definition get_item :: "grid \<Rightarrow> int \<Rightarrow> int \<Rightarrow> error + real" where
  "get_item a i j =
     (let M = int (length a); i' = (if i < 0 then M + i else i)
      in if 0 \<le> i' \<and> i' < M then
           (let row = a ! nat i'; N = int (length row); j' = (if j < 0 then N + j else j)
            in if 0 \<le> j' \<and> j' < N then Inr (row ! nat j') else Inl IndexError)
         else Inl IndexError)"

text \<open>\<^verbatim>\<open>math.atan2(y, x)\<close>, the angle of the point \<open>(x, y)\<close> in \<open>(-pi, pi]\<close>; 0 at the origin.\<close>

definition atan2 :: "real \<Rightarrow> real \<Rightarrow> real" where
  "atan2 y x =
     (if 0 < x then arctan (y / x)
      else if x < 0 then (if 0 \<le> y then arctan (y / x) + pi else arctan (y / x) - pi)
      else if 0 < y then pi / 2
      else if y < 0 then - pi / 2
      else 0)"

text \<open>Python's \<^verbatim>\<open>a % b\<close> on floats, for a positive \<open>b\<close>: the result has the sign of \<open>b\<close>.\<close>

definition py_mod :: "real \<Rightarrow> real \<Rightarrow> real" where
  "py_mod a b = a - b * of_int \<lfloor>a / b\<rfloor>"

text \<open>Python 3's \<^verbatim>\<open>int(round(v))\<close>: to the nearest integer, a tie to the even one.\<close>

definition py_round :: "real \<Rightarrow> int" where
  "py_round v =
     (let f = \<lfloor>v\<rfloor>; d = v - of_int f
      in if d < 1 / 2 then f
         else if 1 / 2 < d then f + 1
         else if even f then f else f + 1)"

text \<open>
  \<^verbatim>\<open>np.argmin\<close>: the index of the first occurrence of the least entry; ValueError on an
  empty sequence.
\<close>

fun first_min_index :: "real \<Rightarrow> nat \<Rightarrow> nat \<Rightarrow> real list \<Rightarrow> nat" where
  "first_min_index best bi i [] = bi"
| "first_min_index best bi i (v # vs) =
     (if v < best then first_min_index v i (Suc i) vs
      else first_min_index best bi (Suc i) vs)"

definition np_argmin :: "real list \<Rightarrow> error + nat" where
  "np_argmin vs = (case vs of [] \<Rightarrow> Inl ValueError | v # rest \<Rightarrow> Inr (first_min_index v 0 1 rest))"

text \<open>A \<^verbatim>\<open>for\<close> loop over a list of indices whose body may raise: the first error ends it.\<close>

fun for_each :: "'i list \<Rightarrow> ('i \<Rightarrow> 's \<Rightarrow> error + 's) \<Rightarrow> 's \<Rightarrow> error + 's" where
  "for_each [] body s = Inr s"
| "for_each (i # rest) body s =
     (case body i s of Inl e \<Rightarrow> Inl e | Inr s' \<Rightarrow> for_each rest body s')"

subsection \<open>\<^verbatim>\<open>inverse_scanner\<close>\<close>

text \<open>
  The \<^verbatim>\<open>if/elif/elif\<close> chain of \<^verbatim>\<open>inverse_scanner\<close> for a cell at range \<open>r\<close> and
  bearing \<open>phi\<close>, against the bearing \<open>phi_k = meas_phi[k]\<close> and the range
  \<open>r_k = meas_r[k]\<close>: the value assigned to the cell, or \<open>None\<close> when no branch is
  taken and nothing is assigned.
\<close>

definition classify :: "real \<Rightarrow> real \<Rightarrow> real \<Rightarrow> real \<Rightarrow> real \<Rightarrow> real \<Rightarrow> real \<Rightarrow> real option" where
  "classify r phi phi_k r_k rmax alpha beta =
     (if r > min rmax (r_k + alpha / 2) \<or> \<bar>phi - phi_k\<bar> > beta / 2 then Some 0.5
      else if r_k < rmax \<and> \<bar>r - r_k\<bar> < alpha / 2 then Some 0.7
      else if r < r_k then Some 0.3
      else None)"

text \<open>Range and bearing of cell \<open>(i, j)\<close> relative to the state \<open>(x, y, theta)\<close>.\<close>

definition cell_range :: "real \<Rightarrow> real \<Rightarrow> nat \<Rightarrow> nat \<Rightarrow> real" where
  "cell_range x y i j = sqrt ((real i - x)\<^sup>2 + (real j - y)\<^sup>2)"

definition cell_bearing :: "real \<Rightarrow> real \<Rightarrow> real \<Rightarrow> nat \<Rightarrow> nat \<Rightarrow> real" where
  "cell_bearing x y theta i j =
     py_mod (atan2 (real j - y) (real i - x) - theta + pi) (2 * pi) - pi"

text \<open>
  What the body of the two loops decides for the cell \<open>(i, j)\<close>, before it writes:
  \<^verbatim>\<open>np.argmin\<close> raises on an empty \<open>meas_phi\<close>, and \<^verbatim>\<open>meas_r[k]\<close> is read in the
  first condition.
\<close>

definition cell_class ::
  "real \<Rightarrow> real \<Rightarrow> real \<Rightarrow> real list \<Rightarrow> real list \<Rightarrow> real \<Rightarrow> real \<Rightarrow> real \<Rightarrow> nat \<Rightarrow> nat \<Rightarrow> error + real option" where
  "cell_class x y theta meas_phi meas_r rmax alpha beta i j =
     (let r = cell_range x y i j;
          phi = cell_bearing x y theta i j
      in case np_argmin (map (\<lambda>p. \<bar>phi - p\<bar>) meas_phi) of
           Inl e \<Rightarrow> Inl e
         | Inr k \<Rightarrow>
             if k < length meas_r then
               Inr (classify r phi (meas_phi ! k) (meas_r ! k) rmax alpha beta)
             else Inl IndexError)"

text \<open>
  The body of the two loops: the assignment to \<^verbatim>\<open>m[i,j]\<close> raises outside the
  allocated array, and a cell for which no branch is taken is left as it is.
\<close>

definition scan_cell ::
  "real \<Rightarrow> real \<Rightarrow> real \<Rightarrow> real list \<Rightarrow> real list \<Rightarrow> real \<Rightarrow> real \<Rightarrow> real \<Rightarrow> nat \<Rightarrow> nat \<Rightarrow> grid \<Rightarrow> error + grid" where
  "scan_cell x y theta meas_phi meas_r rmax alpha beta i j m =
     (case cell_class x y theta meas_phi meas_r rmax alpha beta i j of
        Inl e \<Rightarrow> Inl e
      | Inr (Some v) \<Rightarrow> set_item m i j v
      | Inr None \<Rightarrow> Inr m)"

text \<open>
  \<^verbatim>\<open>inverse_scanner\<close>. The array is allocated as \<^verbatim>\<open>np.zeros((M, N))\<close> from the
  notebook's global variables \<open>M\<close> and \<open>N\<close>, which are the first two arguments here;
  the loops run over \<open>num_rows\<close> and \<open>num_cols\<close>.
\<close>

definition inverse_scanner ::
  "nat \<Rightarrow> nat \<Rightarrow> nat \<Rightarrow> nat \<Rightarrow> real \<Rightarrow> real \<Rightarrow> real \<Rightarrow> real list \<Rightarrow> real list \<Rightarrow> real \<Rightarrow> real \<Rightarrow> real \<Rightarrow> error + grid" where
  "inverse_scanner M N num_rows num_cols x y theta meas_phi meas_r rmax alpha beta =
     for_each [0..<num_rows]
       (\<lambda>i. for_each [0..<num_cols]
          (\<lambda>j. scan_cell x y theta meas_phi meas_r rmax alpha beta i j))
       (np_zeros M N)"

text \<open>
  The value found after the loops in a cell they have visited: the one assigned, or the
  0 of \<^verbatim>\<open>np.zeros\<close> when no branch of the chain was taken.
\<close>

definition visited_value :: "error + real option \<Rightarrow> real" where
  "visited_value c = (case c of Inr (Some v) \<Rightarrow> v | _ \<Rightarrow> 0)"

subsection \<open>\<^verbatim>\<open>get_ranges\<close>\<close>

text \<open>The candidate cell \<open>(xi, yi)\<close> at step \<open>r\<close> along the direction \<open>dir\<close>.\<close>

definition candidate :: "real \<Rightarrow> real \<Rightarrow> real \<Rightarrow> int \<Rightarrow> int \<times> int" where
  "candidate x y dir r =
     (py_round (x + of_int r * cos dir), py_round (y + of_int r * sin dir))"

text \<open>The test \<^verbatim>\<open>xi <= 0 or xi >= M-1 or yi <= 0 or yi >= N-1\<close>.\<close>

definition not_in_map :: "nat \<Rightarrow> nat \<Rightarrow> int \<times> int \<Rightarrow> bool" where
  "not_in_map M N c =
     (fst c \<le> 0 \<or> fst c \<ge> int M - 1 \<or> snd c \<le> 0 \<or> snd c \<ge> int N - 1)"

text \<open>
  The inner loop of \<^verbatim>\<open>get_ranges\<close> over the steps \<open>r\<close> along the direction
  \<open>dir = theta + meas_phi[i]\<close>: the step at which the loop breaks, or \<open>None\<close> when it
  runs to its end. The map is read in the \<^verbatim>\<open>elif\<close> only, after the bounds test.
\<close>

fun cast_ray :: "grid \<Rightarrow> real \<Rightarrow> real \<Rightarrow> real \<Rightarrow> int list \<Rightarrow> error + int option" where
  "cast_ray true_map x y dir [] = Inr None"
| "cast_ray true_map x y dir (r # rest) =
     (let c = candidate x y dir r
      in if not_in_map (fst (np_shape true_map)) (snd (np_shape true_map)) c then Inr (Some r)
         else (case get_item true_map (fst c) (snd c) of
                 Inl e \<Rightarrow> Inl e
               | Inr v \<Rightarrow> if v = 1 then Inr (Some r) else cast_ray true_map x y dir rest))"

text \<open>\<^verbatim>\<open>get_ranges(true_map, X, meas_phi, rmax)\<close> with \<open>X = (x, y, theta)\<close>.\<close>

definition get_ranges :: "grid \<Rightarrow> real \<times> real \<times> real \<Rightarrow> real list \<Rightarrow> int \<Rightarrow> error + real list" where
  "get_ranges true_map X meas_phi rmax =
     (case X of (x, y, theta) \<Rightarrow>
        for_each [0..<length meas_phi]
          (\<lambda>i meas_r.
             case cast_ray true_map x y (theta + meas_phi ! i) [1..rmax] of
               Inl e \<Rightarrow> Inl e
             | Inr None \<Rightarrow> Inr meas_r
             | Inr (Some r) \<Rightarrow> Inr (meas_r[i := of_int r]))
          (replicate (length meas_phi) (of_int rmax)))"

text \<open>
  A step of the march at which the loop goes on: the candidate cell passes the bounds
  test of the code (so it lies inside the outermost ring of the map) and holds no obstacle.
\<close>

definition clear_step :: "grid \<Rightarrow> nat \<Rightarrow> nat \<Rightarrow> real \<Rightarrow> real \<Rightarrow> real \<Rightarrow> int \<Rightarrow> bool" where
  "clear_step true_map M N x y dir r =
     (\<not> not_in_map M N (candidate x y dir r)
      \<and> true_map ! nat (fst (candidate x y dir r)) ! nat (snd (candidate x y dir r)) \<noteq> 1)"

text \<open>The range recorded for one bearing, from what the inner loop returns.\<close>

definition recorded_range :: "int \<Rightarrow> error + int option \<Rightarrow> real" where
  "recorded_range rmax v = (case v of Inr (Some r) \<Rightarrow> of_int r | _ \<Rightarrow> of_int rmax)"

text \<open>
  The map of the end-to-end example: \<^verbatim>\<open>np.zeros((10, 10))\<close> with
  \<^verbatim>\<open>true_map[5, 5] = 1\<close>.
\<close>

definition single_obstacle_map :: grid where
  "single_obstacle_map = (np_zeros 10 10)[5 := (np_zeros 10 10 ! 5)[5 := 1]]"

subsection \<open>The log-odds update of the main simulation loop\<close>

text \<open>
  A numpy float as far as the update can tell: a real number, an infinity or NaN.
  The operations follow IEEE 754 on the special values and are exact on the others.
\<close>

datatype npfloat = Fin real | PInf | NInf | NaN

fun np_neg :: "npfloat \<Rightarrow> npfloat" where
  "np_neg (Fin a) = Fin (- a)"
| "np_neg PInf = NInf"
| "np_neg NInf = PInf"
| "np_neg NaN = NaN"

fun np_add :: "npfloat \<Rightarrow> npfloat \<Rightarrow> npfloat" where
  "np_add (Fin a) (Fin b) = Fin (a + b)"
| "np_add NaN _ = NaN"
| "np_add _ NaN = NaN"
| "np_add PInf NInf = NaN"
| "np_add NInf PInf = NaN"
| "np_add PInf _ = PInf"
| "np_add _ PInf = PInf"
| "np_add NInf _ = NInf"
| "np_add _ NInf = NInf"

definition np_subtract :: "npfloat \<Rightarrow> npfloat \<Rightarrow> npfloat" where
  "np_subtract a b = np_add a (np_neg b)"

fun np_divide :: "npfloat \<Rightarrow> npfloat \<Rightarrow> npfloat" where
  "np_divide (Fin a) (Fin b) =
     (if b \<noteq> 0 then Fin (a / b)
      else if 0 < a then PInf else if a < 0 then NInf else NaN)"
| "np_divide NaN _ = NaN"
| "np_divide _ NaN = NaN"
| "np_divide (Fin a) PInf = Fin 0"
| "np_divide (Fin a) NInf = Fin 0"
| "np_divide PInf (Fin b) = (if 0 \<le> b then PInf else NInf)"
| "np_divide NInf (Fin b) = (if 0 \<le> b then NInf else PInf)"
| "np_divide PInf PInf = NaN"
| "np_divide PInf NInf = NaN"
| "np_divide NInf PInf = NaN"
| "np_divide NInf NInf = NaN"

fun np_log :: "npfloat \<Rightarrow> npfloat" where
  "np_log (Fin a) = (if 0 < a then Fin (ln a) else if a = 0 then NInf else NaN)"
| "np_log PInf = PInf"
| "np_log _ = NaN"

fun np_exp :: "npfloat \<Rightarrow> npfloat" where
  "np_exp (Fin a) = Fin (exp a)"
| "np_exp PInf = PInf"
| "np_exp NInf = Fin 0"
| "np_exp NaN = NaN"

text \<open>
  One cell of \<^verbatim>\<open>L = np.log(np.divide(invmod, np.subtract(1, invmod))) + L - L0\<close> and of
  \<^verbatim>\<open>m = np.divide(np.exp(L), 1 + np.exp(L))\<close>.
\<close>

definition log_odds_cell :: "npfloat \<Rightarrow> npfloat \<Rightarrow> npfloat \<Rightarrow> npfloat" where
  "log_odds_cell p l l0 =
     np_subtract (np_add (np_log (np_divide p (np_subtract (Fin 1) p))) l) l0"

definition belief_cell :: "npfloat \<Rightarrow> npfloat" where
  "belief_cell l = np_divide (np_exp l) (np_add (Fin 1) (np_exp l))"

type_synonym fgrid = "npfloat list list"

text \<open>
  The two statements on whole arrays. All the arrays of the loop have the shape
  \<open>(M, N)\<close>; numpy's broadcasting of arrays of other shapes is not modelled, operands of
  different shapes give ValueError here.
\<close>

definition fusion_update :: "fgrid \<Rightarrow> grid \<Rightarrow> fgrid \<Rightarrow> error + fgrid \<times> fgrid" where
  "fusion_update L invmod L0 =
     (if map length invmod = map length L \<and> map length L = map length L0 then
        (let L' = map2 (\<lambda>prow (lrow, l0row).
                     map2 (\<lambda>p (l, l0). log_odds_cell (Fin p) l l0) prow (zip lrow l0row))
                   invmod (zip L L0)
         in Inr (L', map (map belief_cell) L'))
      else Inl ValueError)"

text \<open>
  The initial belief \<^verbatim>\<open>m = np.multiply(0.5, np.ones((M,N)))\<close> and its log odds
  \<^verbatim>\<open>L0 = np.log(np.divide(m, np.subtract(1,m)))\<close>.
\<close>

definition initial_belief :: "nat \<Rightarrow> nat \<Rightarrow> fgrid" where
  "initial_belief M N = replicate M (replicate N (Fin 0.5))"

definition initial_log_odds :: "nat \<Rightarrow> nat \<Rightarrow> fgrid" where
  "initial_log_odds M N =
     map (map (\<lambda>p. np_log (np_divide p (np_subtract (Fin 1) p)))) (initial_belief M N)"

text \<open>
  The body of the main loop after the motion of the robot: the scan, the inverse model
  (called with the globals \<open>M\<close> and \<open>N\<close> as \<open>num_rows\<close> and \<open>num_cols\<close>) and the
  update of \<open>L\<close> and \<open>m\<close>.
\<close>

definition sense_and_fuse ::
  "grid \<Rightarrow> nat \<Rightarrow> nat \<Rightarrow> real \<times> real \<times> real \<Rightarrow> real list \<Rightarrow> int \<Rightarrow> real \<Rightarrow> real \<Rightarrow> fgrid \<Rightarrow> fgrid \<Rightarrow> error + fgrid \<times> fgrid" where
  "sense_and_fuse true_map M N X meas_phi rmax alpha beta L0 L =
     (case get_ranges true_map X meas_phi rmax of
        Inl e \<Rightarrow> Inl e
      | Inr meas_r \<Rightarrow>
          (case inverse_scanner M N M N (fst X) (fst (snd X)) (snd (snd X))
                  meas_phi meas_r (of_int rmax) alpha beta of
             Inl e \<Rightarrow> Inl e
           | Inr invmod \<Rightarrow> fusion_update L invmod L0))"

subsection \<open>The update as the specification words it\<close>

text \<open>
  Per cell, on real numbers: \<open>log_odds' = ln(invmod/(1-invmod)) + log_odds - prior_log_odds\<close>
  and \<open>belief' = exp(log_odds')/(1+exp(log_odds'))\<close>.
\<close>

definition spec_log_odds :: "real \<Rightarrow> real \<Rightarrow> real \<Rightarrow> real" where
  "spec_log_odds invmod log_odds prior_log_odds =
     ln (invmod / (1 - invmod)) + log_odds - prior_log_odds"

definition spec_belief :: "real \<Rightarrow> real" where
  "spec_belief log_odds' = exp log_odds' / (1 + exp log_odds')"

text \<open>
  The invariant \<open>belief = 1 / (1 + exp(-log_odds))\<close>, evaluated in the arithmetic of
  the update.
\<close>

definition spec_sigmoid :: "npfloat \<Rightarrow> npfloat" where
  "spec_sigmoid log_odds = np_divide (Fin 1) (np_add (Fin 1) (np_exp (np_neg log_odds)))"

section \<open>Properties\<close>

subsection \<open>Loops, arrays and \<^verbatim>\<open>np.argmin\<close>\<close>

lemma for_each_append:
  "for_each (xs @ ys) body s =
     (case for_each xs body s of Inl e \<Rightarrow> Inl e | Inr s' \<Rightarrow> for_each ys body s')"
  by (induction xs arbitrary: s) (auto split: sum.splits)

lemma for_each_total:
  assumes "I 0 s"
    and "\<And>k t. k < n \<Longrightarrow> I k t \<Longrightarrow> \<exists>t'. body k t = Inr t' \<and> I (Suc k) t'"
  shows "\<exists>s'. for_each [0..<n] body s = Inr s' \<and> I n s'"
  using assms(2)
proof (induction n)
  case 0
  then show ?case using assms(1) by simp
next
  case (Suc n)
  then obtain s1 where s1: "for_each [0..<n] body s = Inr s1" "I n s1"
    by (meson less_Suc_eq)
  from Suc.prems [of n s1] s1 obtain s2 where "body n s1 = Inr s2" "I (Suc n) s2"
    by auto
  with s1 show ?case by (simp add: for_each_append)
qed

lemma for_each_partial:
  assumes "for_each xs body s = Inr s'" and "P s"
    and "\<And>k t t'. k \<in> set xs \<Longrightarrow> P t \<Longrightarrow> body k t = Inr t' \<Longrightarrow> P t'"
  shows "P s'"
  using assms
proof (induction xs arbitrary: s)
  case Nil
  then show ?case by simp
next
  case (Cons k ks)
  from Cons.prems(1) obtain t where t: "body k s = Inr t" "for_each ks body t = Inr s'"
    by (auto split: sum.splits)
  have "P t" using Cons.prems(2,3) t(1) by auto
  then show ?case using Cons.IH [OF t(2)] Cons.prems(3) by auto
qed

lemma has_shape_row: "has_shape m M N \<Longrightarrow> i < M \<Longrightarrow> length (m ! i) = N"
  by (simp add: has_shape_def list_all_length)

lemma has_shape_zeros: "has_shape (np_zeros M N) M N"
  by (simp add: has_shape_def np_zeros_def list_all_length)

lemma np_zeros_nth: "i < M \<Longrightarrow> j < N \<Longrightarrow> np_zeros M N ! i ! j = 0"
  by (simp add: np_zeros_def)

lemma set_item_shape:
  assumes "has_shape m M N" and "set_item m i j v = Inr m'"
  shows "has_shape m' M N"
proof -
  from assms(2) have m': "m' = m[i := (m ! i)[j := v]]" and i: "i < length m"
    by (auto simp: set_item_def split: if_splits)
  show ?thesis
    using assms(1) i unfolding m' has_shape_def list_all_length
    by (auto simp: nth_list_update)
qed

lemma set_item_ok:
  assumes "has_shape m M N" and "i < M" and "j < N"
  shows "set_item m i j v = Inr (m[i := (m ! i)[j := v]])"
  using assms by (simp add: set_item_def has_shape_def list_all_length)

lemma set_item_nth:
  assumes "has_shape m M N" and "set_item m i j v = Inr m'" and "a < M" and "b < N"
  shows "m' ! a ! b = (if a = i \<and> b = j then v else m ! a ! b)"
proof -
  from assms(2) have m': "m' = m[i := (m ! i)[j := v]]" and i: "i < length m"
    and j: "j < length (m ! i)"
    by (auto simp: set_item_def split: if_splits)
  show ?thesis
    using assms(1,3,4) i j unfolding m' has_shape_def list_all_length
    by (auto simp: nth_list_update)
qed

lemma first_min_index_bound:
  "bi < i \<Longrightarrow> first_min_index best bi i vs < i + length vs"
proof (induction vs arbitrary: best bi i)
  case Nil
  then show ?case by simp
next
  case (Cons v vs)
  have a: "first_min_index v i (Suc i) vs < Suc i + length vs"
    by (rule Cons.IH) simp
  have b: "first_min_index best bi (Suc i) vs < Suc i + length vs"
    by (rule Cons.IH) (use Cons.prems in simp)
  show ?case using a b by simp
qed

lemma np_argmin_ok:
  assumes "vs \<noteq> []"
  shows "\<exists>k. np_argmin vs = Inr k \<and> k < length vs"
proof (cases vs)
  case Nil
  with assms show ?thesis by simp
next
  case (Cons v rest)
  have "first_min_index v 0 1 rest < 1 + length rest"
    by (rule first_min_index_bound) simp
  with Cons show ?thesis by (simp add: np_argmin_def)
qed

lemma np_argmin_empty: "np_argmin [] = Inl ValueError"
  by (simp add: np_argmin_def)

lemma cell_class_ok:
  assumes "meas_phi \<noteq> []" and "length meas_phi \<le> length meas_r"
  shows "\<exists>c. cell_class x y theta meas_phi meas_r rmax alpha beta i j = Inr c"
proof -
  let ?vs = "map (\<lambda>p. \<bar>cell_bearing x y theta i j - p\<bar>) meas_phi"
  from assms(1) have "?vs \<noteq> []" by simp
  from np_argmin_ok [OF this] obtain k where k: "np_argmin ?vs = Inr k" "k < length ?vs"
    by blast
  with assms(2) have "k < length meas_r" by simp
  with k(1) show ?thesis by (simp add: cell_class_def Let_def)
qed

lemma scan_row:
  assumes shape: "has_shape m M N" and i: "i < M" and n: "n \<le> N"
    and ok: "\<And>j. j < n \<Longrightarrow> \<exists>c. cell_class x y theta meas_phi meas_r rmax alpha beta i j = Inr c"
  shows "\<exists>m'. for_each [0..<n] (\<lambda>j. scan_cell x y theta meas_phi meas_r rmax alpha beta i j) m = Inr m'
            \<and> has_shape m' M N
            \<and> (\<forall>a<M. \<forall>b<N. m' ! a ! b =
                 (case (if a = i \<and> b < n then cell_class x y theta meas_phi meas_r rmax alpha beta i b
                        else Inr None) of
                    Inr (Some v) \<Rightarrow> v | _ \<Rightarrow> m ! a ! b))"
    (is "\<exists>m'. _ = Inr m' \<and> ?I n m'")
proof (rule for_each_total [where I = ?I])
  show "?I 0 m" using shape by simp
next
  fix k t
  assume k: "k < n" and inv: "?I k t"
  from ok [OF k] obtain c where c: "cell_class x y theta meas_phi meas_r rmax alpha beta i k = Inr c"
    by blast
  show "\<exists>t'. scan_cell x y theta meas_phi meas_r rmax alpha beta i k t = Inr t' \<and> ?I (Suc k) t'"
  proof (cases c)
    case None
    with c have "scan_cell x y theta meas_phi meas_r rmax alpha beta i k t = Inr t"
      by (simp add: scan_cell_def)
    moreover have "?I (Suc k) t"
      using inv c None by (auto simp: less_Suc_eq)
    ultimately show ?thesis by blast
  next
    case (Some v)
    from inv have st: "has_shape t M N" by blast
    from k n have kN: "k < N" by simp
    let ?t' = "t[i := (t ! i)[k := v]]"
    have step: "scan_cell x y theta meas_phi meas_r rmax alpha beta i k t = Inr ?t'"
      using c Some set_item_ok [OF st i kN] by (simp add: scan_cell_def)
    have si: "set_item t i k v = Inr ?t'" by (rule set_item_ok [OF st i kN])
    have "has_shape ?t' M N" by (rule set_item_shape [OF st si])
    moreover have "\<forall>a<M. \<forall>b<N. ?t' ! a ! b =
                 (case (if a = i \<and> b < Suc k then cell_class x y theta meas_phi meas_r rmax alpha beta i b
                        else Inr None) of
                    Inr (Some v) \<Rightarrow> v | _ \<Rightarrow> m ! a ! b)"
    proof (intro allI impI)
      fix a b assume ab: "a < M" "b < N"
      have "?t' ! a ! b = (if a = i \<and> b = k then v else t ! a ! b)"
        by (rule set_item_nth [OF st si ab])
      then show "?t' ! a ! b =
                 (case (if a = i \<and> b < Suc k then cell_class x y theta meas_phi meas_r rmax alpha beta i b
                        else Inr None) of
                    Inr (Some v) \<Rightarrow> v | _ \<Rightarrow> m ! a ! b)"
        using inv ab c Some by (auto simp: less_Suc_eq)
    qed
    ultimately show ?thesis using step by blast
  qed
qed

subsection \<open>The grid returned by \<^verbatim>\<open>inverse_scanner\<close>\<close>

lemma inverse_scanner_cells:
  assumes ok: "\<And>i j. i < num_rows \<Longrightarrow> j < num_cols \<Longrightarrow>
                 \<exists>c. cell_class x y theta meas_phi meas_r rmax alpha beta i j = Inr c"
    and rows: "num_rows \<le> M" and cols: "num_cols \<le> N"
  shows "\<exists>g. inverse_scanner M N num_rows num_cols x y theta meas_phi meas_r rmax alpha beta = Inr g
            \<and> has_shape g M N
            \<and> (\<forall>a<M. \<forall>b<N. g ! a ! b =
                 (if a < num_rows \<and> b < num_cols
                  then visited_value (cell_class x y theta meas_phi meas_r rmax alpha beta a b)
                  else 0))"
    (is "\<exists>g. _ = Inr g \<and> ?I num_rows g")
  unfolding inverse_scanner_def
proof (rule for_each_total [where I = ?I])
  show "?I 0 (np_zeros M N)"
    by (simp add: has_shape_zeros np_zeros_nth)
next
  fix k t
  assume k: "k < num_rows" and inv: "?I k t"
  from inv have st: "has_shape t M N" by blast
  from k rows have kM: "k < M" by simp
  have okk: "\<And>j. j < num_cols \<Longrightarrow>
                 \<exists>c. cell_class x y theta meas_phi meas_r rmax alpha beta k j = Inr c"
    using ok k by blast
  from scan_row [OF st kM cols okk] obtain t' where
    run: "for_each [0..<num_cols] (\<lambda>j. scan_cell x y theta meas_phi meas_r rmax alpha beta k j) t = Inr t'"
    and st': "has_shape t' M N"
    and cells: "\<forall>a<M. \<forall>b<N. t' ! a ! b =
                 (case (if a = k \<and> b < num_cols then cell_class x y theta meas_phi meas_r rmax alpha beta k b
                        else Inr None) of
                    Inr (Some v) \<Rightarrow> v | _ \<Rightarrow> t ! a ! b)"
    by blast
  have "\<forall>a<M. \<forall>b<N. t' ! a ! b =
                 (if a < Suc k \<and> b < num_cols
                  then visited_value (cell_class x y theta meas_phi meas_r rmax alpha beta a b)
                  else 0)"
  proof (intro allI impI)
    fix a b assume ab: "a < M" "b < N"
    from inv ab have old: "t ! a ! b =
                 (if a < k \<and> b < num_cols
                  then visited_value (cell_class x y theta meas_phi meas_r rmax alpha beta a b)
                  else 0)" by blast
    from cells ab have new: "t' ! a ! b =
                 (case (if a = k \<and> b < num_cols then cell_class x y theta meas_phi meas_r rmax alpha beta k b
                        else Inr None) of
                    Inr (Some v) \<Rightarrow> v | _ \<Rightarrow> t ! a ! b)" by blast
    show "t' ! a ! b =
                 (if a < Suc k \<and> b < num_cols
                  then visited_value (cell_class x y theta meas_phi meas_r rmax alpha beta a b)
                  else 0)"
    proof (cases "a = k \<and> b < num_cols")
      case True
      then show ?thesis using new old
        by (auto simp: visited_value_def split: sum.splits option.splits)
    next
      case False
      then show ?thesis using new old by (auto simp: less_Suc_eq)
    qed
  qed
  with run st' show "\<exists>t'. for_each [0..<num_cols] (scan_cell x y theta meas_phi meas_r rmax alpha beta k) t = Inr t' \<and> ?I (Suc k) t'"
    by blast
qed

lemma scan_cell_shape:
  "has_shape m M N \<Longrightarrow> scan_cell x y theta meas_phi meas_r rmax alpha beta i j m = Inr m'
     \<Longrightarrow> has_shape m' M N"
  by (auto simp: scan_cell_def split: sum.splits option.splits dest: set_item_shape)

lemma inverse_scanner_shape:
  assumes "inverse_scanner M N num_rows num_cols x y theta meas_phi meas_r rmax alpha beta = Inr g"
  shows "has_shape g M N"
proof (rule for_each_partial [OF assms [unfolded inverse_scanner_def], where P = "\<lambda>m. has_shape m M N"])
  show "has_shape (np_zeros M N) M N" by (rule has_shape_zeros)
next
  fix k t t'
  assume t: "has_shape t M N"
    and run: "for_each [0..<num_cols] (scan_cell x y theta meas_phi meas_r rmax alpha beta k) t = Inr t'"
  show "has_shape t' M N"
    by (rule for_each_partial [OF run, where P = "\<lambda>m. has_shape m M N"])
       (use t scan_cell_shape in blast)+
qed

text \<open>Whatever the arguments, a returned grid holds only 0, 0.3, 0.5 and 0.7.\<close>

lemma set_item_values:
  assumes "set_item m i j v = Inr m'" and "\<forall>row\<in>set m. set row \<subseteq> S" and "v \<in> S"
  shows "\<forall>row\<in>set m'. set row \<subseteq> S"
proof -
  from assms(1) have m': "m' = m[i := (m ! i)[j := v]]" and i: "i < length m"
    by (auto simp: set_item_def split: if_splits)
  have "set ((m ! i)[j := v]) \<subseteq> insert v (set (m ! i))"
    by (rule set_update_subset_insert)
  moreover have "set (m ! i) \<subseteq> S" using assms(2) i by simp
  ultimately have row: "set ((m ! i)[j := v]) \<subseteq> S" using assms(3) by auto
  have "set m' \<subseteq> insert ((m ! i)[j := v]) (set m)"
    unfolding m' by (rule set_update_subset_insert)
  with row assms(2) show ?thesis by auto
qed

lemma classify_values: "classify r phi phi_k r_k rmax alpha beta = Some v \<Longrightarrow> v \<in> {0.3, 0.5, 0.7}"
  by (auto simp: classify_def split: if_splits)

lemma scan_cell_values:
  assumes "scan_cell x y theta meas_phi meas_r rmax alpha beta i j m = Inr m'"
    and "\<forall>row\<in>set m. set row \<subseteq> {0, 0.3, 0.5, 0.7}"
  shows "\<forall>row\<in>set m'. set row \<subseteq> {0, 0.3, 0.5, 0.7}"
proof (cases "cell_class x y theta meas_phi meas_r rmax alpha beta i j")
  case (Inl e)
  with assms(1) show ?thesis by (simp add: scan_cell_def)
next
  case (Inr c)
  show ?thesis
  proof (cases c)
    case None
    with Inr assms show ?thesis by (simp add: scan_cell_def)
  next
    case (Some v)
    with Inr have "v \<in> {0.3, 0.5, 0.7}"
      by (auto simp: cell_class_def Let_def split: sum.splits if_splits dest: classify_values)
    then have v: "v \<in> {0, 0.3, 0.5, 0.7}" by auto
    from Inr Some assms(1) have "set_item m i j v = Inr m'" by (simp add: scan_cell_def)
    then show ?thesis using assms(2) v by (rule set_item_values)
  qed
qed

lemma inverse_scanner_values:
  assumes "inverse_scanner M N num_rows num_cols x y theta meas_phi meas_r rmax alpha beta = Inr g"
  shows "\<forall>row\<in>set g. set row \<subseteq> {0, 0.3, 0.5, 0.7}"
proof (rule for_each_partial [OF assms [unfolded inverse_scanner_def],
      where P = "\<lambda>m. \<forall>row\<in>set m. set row \<subseteq> {0, 0.3, 0.5, 0.7}"])
  show "\<forall>row\<in>set (np_zeros M N). set row \<subseteq> {0, 0.3, 0.5, 0.7}"
    by (auto simp: np_zeros_def)
next
  fix k t t'
  assume t: "\<forall>row\<in>set t. set row \<subseteq> {0, 0.3, 0.5, 0.7}"
    and run: "for_each [0..<num_cols] (scan_cell x y theta meas_phi meas_r rmax alpha beta k) t = Inr t'"
  show "\<forall>row\<in>set t'. set row \<subseteq> {0, 0.3, 0.5, 0.7}"
    by (rule for_each_partial [OF run, where P = "\<lambda>m. \<forall>row\<in>set m. set row \<subseteq> {0, 0.3, 0.5, 0.7}"])
       (use t scan_cell_values in blast)+
qed

lemma unseen_cell: "cell_class 5 5 0 [0] [3] 3 1 0.05 8 5 = Inr None"
  by (simp add: cell_class_def cell_range_def cell_bearing_def atan2_def py_mod_def
      np_argmin_def classify_def)

text \<open>
  Claim C1: every cell of the grid returned by \<^verbatim>\<open>inverse_scanner\<close> holds 0.3, 0.5
  or 0.7, and none holds 0. The chain of conditions has no final \<^verbatim>\<open>else\<close>: on a
  10 by 10 grid, from the state \<open>(5, 5, 0)\<close> with the single bearing 0, the measured
  range 3, \<open>rmax = 3\<close>, \<open>alpha = 1\<close> and \<open>beta = 0.05\<close>, the cell \<open>(8, 5)\<close> lies on
  the beam at range exactly \<open>rmax\<close>, no branch is taken, and the returned grid holds the
  initial 0 there.
\<close>

theorem inverse_scanner_leaves_zero:
  "(case inverse_scanner 10 10 10 10 5 5 0 [0] [3] 3 1 0.05 of
      Inr m \<Rightarrow> m ! 8 ! 5 = 0 | Inl e \<Rightarrow> False)"
proof -
  have "\<exists>g. inverse_scanner 10 10 10 10 5 5 0 [0] [3] 3 1 0.05 = Inr g
            \<and> has_shape g 10 10
            \<and> (\<forall>a<10. \<forall>b<10. g ! a ! b =
                 (if a < 10 \<and> b < 10
                  then visited_value (cell_class 5 5 0 [0] [3] 3 1 0.05 a b)
                  else 0))"
    by (rule inverse_scanner_cells) (simp_all add: cell_class_ok)
  then obtain g where g: "inverse_scanner 10 10 10 10 5 5 0 [0] [3] 3 1 0.05 = Inr g"
    and cells: "\<forall>a<10. \<forall>b<10. g ! a ! b =
                 (if a < 10 \<and> b < 10
                  then visited_value (cell_class 5 5 0 [0] [3] 3 1 0.05 a b)
                  else 0)"
    by blast
  from cells have "g ! 8 ! 5 = visited_value (cell_class 5 5 0 [0] [3] 3 1 0.05 8 5)"
    by simp
  then show ?thesis using g unseen_cell by (simp add: visited_value_def)
qed

text \<open>
  Claim C9: the grid returned by \<^verbatim>\<open>inverse_scanner\<close> has \<open>num_rows\<close> rows and
  \<open>num_cols\<close> columns. The array is allocated from the globals \<open>M\<close> and \<open>N\<close>, not
  from the arguments: with the notebook's \<open>M = 50\<close> and \<open>N = 60\<close>, the call with
  \<open>num_rows = num_cols = 2\<close> returns a grid of 50 rows and 60 columns.
\<close>

theorem inverse_scanner_shape_from_globals:
  "(case inverse_scanner 50 60 2 2 0 0 0 [0] [30] 30 1 0.05 of
      Inr m \<Rightarrow> has_shape m 50 60 \<and> \<not> has_shape m 2 2 | Inl e \<Rightarrow> False)"
proof -
  have "\<exists>g. inverse_scanner 50 60 2 2 0 0 0 [0] [30] 30 1 0.05 = Inr g
            \<and> has_shape g 50 60
            \<and> (\<forall>a<50. \<forall>b<60. g ! a ! b =
                 (if a < 2 \<and> b < 2
                  then visited_value (cell_class 0 0 0 [0] [30] 30 1 0.05 a b)
                  else 0))"
    by (rule inverse_scanner_cells) (simp_all add: cell_class_ok)
  then obtain g where g: "inverse_scanner 50 60 2 2 0 0 0 [0] [30] 30 1 0.05 = Inr g"
    and shape: "has_shape g 50 60"
    by blast
  from shape have "\<not> has_shape g 2 2" by (simp add: has_shape_def)
  with g shape show ?thesis by simp
qed

lemma scan_cell_no_bearings:
  "scan_cell x y theta [] meas_r rmax alpha beta i j m = Inl ValueError"
  by (simp add: scan_cell_def cell_class_def np_argmin_def)

text \<open>
  Claim C8, as the code has it: with an empty sequence of bearings and at least one cell
  to visit, \<^verbatim>\<open>inverse_scanner\<close> fails with the ValueError that \<^verbatim>\<open>np.argmin\<close> raises
  on an empty sequence, at the first cell. The code has no error condition of its own.
\<close>

theorem inverse_scanner_no_bearings:
  assumes "0 < num_rows" and "0 < num_cols"
  shows "inverse_scanner M N num_rows num_cols x y theta [] meas_r rmax alpha beta = Inl ValueError"
proof -
  from assms have "[0..<num_rows] = 0 # [1..<num_rows]" "[0..<num_cols] = 0 # [1..<num_cols]"
    by (simp_all add: upt_conv_Cons)
  then show ?thesis
    by (simp add: inverse_scanner_def scan_cell_no_bearings)
qed

text \<open>The notebook's grid, state and sensor parameters, without bearings.\<close>

theorem inverse_scanner_no_bearings_witness:
  "(0::nat) < 50 \<and> (0::nat) < 60
   \<and> inverse_scanner 50 60 50 60 30 30 0 [] [] 30 1 0.05 = Inl ValueError"
  using inverse_scanner_no_bearings [of 50 60 50 60 30 30 0 "[]" 30 1 "0.05"] by simp

text \<open>
  The failure of the call without bearings on a 10 by 10 grid is numpy's ValueError, not
  a configuration error raised by the function.
\<close>

theorem no_bearings_counterexample:
  "inverse_scanner 10 10 10 10 5 5 0 [] [] 3 1 0.05 = Inl ValueError"
  by (simp add: inverse_scanner_def scan_cell_def cell_class_def np_argmin_def upt_conv_Cons)

text \<open>With no cell to visit the call returns the array of zeros, whatever the bearings.\<close>

lemma inverse_scanner_no_cells:
  "num_rows = 0 \<or> num_cols = 0 \<Longrightarrow>
   inverse_scanner M N num_rows num_cols x y theta meas_phi meas_r rmax alpha beta = Inr (np_zeros M N)"
proof (erule disjE)
  assume "num_rows = 0"
  then show ?thesis by (simp add: inverse_scanner_def)
next
  assume c: "num_cols = 0"
  have "for_each xs (\<lambda>i. for_each [] (\<lambda>j. scan_cell x y theta meas_phi meas_r rmax alpha beta i j)) m = Inr m" for xs m
    by (induction xs) simp_all
  with c show ?thesis by (simp add: inverse_scanner_def)
qed

subsection \<open>The classification along a beam\<close>

text \<open>
  Claim C6, as the code has it. For a beam with measured range \<open>r0 < rmax\<close> and a cell
  within the angular influence of the beam, the classification by the range \<open>r\<close> of
  the cell is: free (0.3) for \<open>r \<le> r0 - alpha/2\<close>; occupied (0.7) for
  \<open>\<bar>r - r0\<bar> < alpha/2\<close> as long as \<open>r \<le> rmax\<close>; unknown (0.5) for \<open>r\<close> beyond
  \<open>min(rmax, r0 + alpha/2)\<close>. The three regions come in this order: a free cell is
  nearer than an occupied one, and both are nearer than an unknown one.
\<close>

theorem classify_sweep:
  assumes "r0 < rmax" and "0 < alpha" and "\<bar>phi - phi_k\<bar> \<le> beta / 2"
    and "\<bar>phi' - phi_k\<bar> \<le> beta / 2"
  shows "(r \<le> r0 - alpha / 2 \<longrightarrow> classify r phi phi_k r0 rmax alpha beta = Some 0.3)
       \<and> (\<bar>r - r0\<bar> < alpha / 2 \<and> r \<le> rmax \<longrightarrow> classify r phi phi_k r0 rmax alpha beta = Some 0.7)
       \<and> (min rmax (r0 + alpha / 2) < r \<longrightarrow> classify r phi phi_k r0 rmax alpha beta = Some 0.5)
       \<and> (classify r phi phi_k r0 rmax alpha beta = Some 0.3
            \<and> classify r' phi' phi_k r0 rmax alpha beta = Some 0.7 \<longrightarrow> r < r')
       \<and> (classify r phi phi_k r0 rmax alpha beta = Some 0.7
            \<and> classify r' phi' phi_k r0 rmax alpha beta = Some 0.5 \<longrightarrow> r < r')
       \<and> (classify r phi phi_k r0 rmax alpha beta = Some 0.3
            \<and> classify r' phi' phi_k r0 rmax alpha beta = Some 0.5 \<longrightarrow> r < r')"
  using assms by (auto simp: classify_def split: if_splits)

text \<open>The beam of range 5 with \<open>rmax = 10\<close>, \<open>alpha = 1\<close>: cells at ranges 3, 5.2 and 6.\<close>

theorem classify_sweep_witness:
  "classify 3 0 0 5 10 1 0.05 = Some 0.3
   \<and> classify 5.2 0 0 5 10 1 0.05 = Some 0.7
   \<and> classify 6 0 0 5 10 1 0.05 = Some 0.5"
  using classify_sweep [of 5 10 1 0 0 "0.05" 0 3 3]
    classify_sweep [of 5 10 1 0 0 "0.05" 0 "5.2" 3]
    classify_sweep [of 5 10 1 0 0 "0.05" 0 6 3]
  by simp

text \<open>
  The band of the surface is cut at \<open>rmax\<close>: with \<open>r0 = 9\<close>, \<open>rmax = 10\<close> and
  \<open>alpha = 4\<close>, the cell at range 10.5 has \<open>\<bar>r - r0\<bar> < alpha/2\<close> and is unknown, not
  occupied, since the first condition of the chain wins.
\<close>

theorem classify_sweep_counterexample:
  "(9::real) < 10 \<and> \<bar>10.5 - 9\<bar> < (4::real) / 2
   \<and> classify 10.5 0 0 9 10 4 0.05 = Some 0.5
   \<and> classify 10.5 0 0 9 10 4 0.05 \<noteq> Some 0.7"
  by (simp add: classify_def)

subsection \<open>The ranges returned by \<^verbatim>\<open>get_ranges\<close>\<close>

lemma not_in_map_shape:
  assumes "has_shape a M N"
  shows "not_in_map (fst (np_shape a)) (snd (np_shape a)) c = not_in_map M N c"
proof (cases a)
  case Nil
  with assms have "M = 0" by (simp add: has_shape_def)
  with Nil show ?thesis by (auto simp: not_in_map_def np_shape_def)
next
  case (Cons row rest)
  with assms show ?thesis by (simp add: np_shape_def has_shape_def)
qed

lemma get_item_inside:
  assumes "has_shape a M N" and "\<not> not_in_map M N c"
  shows "get_item a (fst c) (snd c) = Inr (a ! nat (fst c) ! nat (snd c))"
proof -
  from assms(2) have b: "0 < fst c" "fst c < int M - 1" "0 < snd c" "snd c < int N - 1"
    by (auto simp: not_in_map_def)
  then have "nat (fst c) < M" by linarith
  with assms(1) have "length (a ! nat (fst c)) = N" by (rule has_shape_row)
  moreover from assms(1) have "length a = M" by (simp add: has_shape_def)
  ultimately show ?thesis using b by (simp add: get_item_def Let_def)
qed

lemma cast_ray_step:
  assumes "has_shape true_map M N"
  shows "cast_ray true_map x y dir (r # rest) =
     (if not_in_map M N (candidate x y dir r) then Inr (Some r)
      else if true_map ! nat (fst (candidate x y dir r)) ! nat (snd (candidate x y dir r)) = 1
           then Inr (Some r)
      else cast_ray true_map x y dir rest)"
  using get_item_inside [OF assms, of "candidate x y dir r"]
  by (simp add: Let_def not_in_map_shape [OF assms])

lemma cast_ray_total:
  assumes "has_shape true_map M N"
  shows "\<exists>v. cast_ray true_map x y dir rs = Inr v"
proof (induction rs)
  case Nil
  show ?case by simp
next
  case (Cons r rs)
  then show ?case by (simp add: cast_ray_step [OF assms] del: cast_ray.simps(2))
qed

lemma cast_ray_clear_prefix:
  assumes "has_shape true_map M N"
    and "\<forall>r\<in>set pre. clear_step true_map M N x y dir r"
  shows "cast_ray true_map x y dir (pre @ rs) = cast_ray true_map x y dir rs"
  using assms(2)
proof (induction pre)
  case Nil
  show ?case by simp
next
  case (Cons r pre)
  then show ?case by (simp add: cast_ray_step [OF assms(1)] clear_step_def del: cast_ray.simps(2))
qed

lemma cast_ray_clear:
  assumes "has_shape true_map M N"
    and "\<forall>r\<in>set rs. clear_step true_map M N x y dir r"
  shows "cast_ray true_map x y dir rs = Inr None"
  using cast_ray_clear_prefix [OF assms, of "[]"] by simp

lemma cast_ray_ring:
  assumes a: "has_shape true_map M N" and b: "has_shape other M N"
    and same: "\<And>i j. 0 < i \<Longrightarrow> i < M - 1 \<Longrightarrow> 0 < j \<Longrightarrow> j < N - 1
                 \<Longrightarrow> other ! i ! j = true_map ! i ! j"
  shows "cast_ray other x y dir rs = cast_ray true_map x y dir rs"
proof (induction rs)
  case Nil
  show ?case by simp
next
  case (Cons r rs)
  let ?c = "candidate x y dir r"
  show ?case
  proof (cases "not_in_map M N ?c")
    case True
    then show ?thesis by (simp add: cast_ray_step [OF a] cast_ray_step [OF b] del: cast_ray.simps(2))
  next
    case False
    then have "0 < nat (fst ?c)" "nat (fst ?c) < M - 1" "0 < nat (snd ?c)" "nat (snd ?c) < N - 1"
      by (auto simp: not_in_map_def)
    then have "other ! nat (fst ?c) ! nat (snd ?c) = true_map ! nat (fst ?c) ! nat (snd ?c)"
      by (rule same)
    with False Cons show ?thesis by (simp add: cast_ray_step [OF a] cast_ray_step [OF b] del: cast_ray.simps(2))
  qed
qed

lemma get_ranges_nth:
  assumes shape: "has_shape true_map M N"
  shows "\<exists>rs. get_ranges true_map (x, y, theta) meas_phi rmax = Inr rs
           \<and> length rs = length meas_phi
           \<and> (\<forall>i<length meas_phi. rs ! i =
                 recorded_range rmax (cast_ray true_map x y (theta + meas_phi ! i) [1..rmax]))"
proof -
  let ?n = "length meas_phi"
  let ?f = "\<lambda>i. recorded_range rmax (cast_ray true_map x y (theta + meas_phi ! i) [1..rmax])"
  let ?I = "\<lambda>k s. length s = ?n \<and> (\<forall>i<?n. s ! i = (if i < k then ?f i else of_int rmax))"
  let ?body = "\<lambda>i meas_r.
             case cast_ray true_map x y (theta + meas_phi ! i) [1..rmax] of
               Inl e \<Rightarrow> Inl e
             | Inr None \<Rightarrow> Inr meas_r
             | Inr (Some r) \<Rightarrow> Inr (meas_r[i := of_int r])"
  have "\<exists>s'. for_each [0..<?n] ?body (replicate ?n (of_int rmax)) = Inr s' \<and> ?I ?n s'"
  proof (rule for_each_total [where I = ?I])
    show "?I 0 (replicate ?n (of_int rmax))" by simp
  next
    fix k t
    assume k: "k < ?n" and inv: "?I k t"
    from cast_ray_total [OF shape] obtain v
      where v: "cast_ray true_map x y (theta + meas_phi ! k) [1..rmax] = Inr v"
      by blast
    show "\<exists>t'. ?body k t = Inr t' \<and> ?I (Suc k) t'"
    proof (cases v)
      case None
      with v have "?body k t = Inr t" by simp
      moreover have "?I (Suc k) t"
        using inv v None by (auto simp: less_Suc_eq recorded_range_def)
      ultimately show ?thesis by blast
    next
      case (Some r)
      with v have "?body k t = Inr (t[k := of_int r])" by simp
      moreover have "?I (Suc k) (t[k := of_int r])"
        using inv v Some k by (auto simp: less_Suc_eq recorded_range_def nth_list_update)
      ultimately show ?thesis by blast
    qed
  qed
  then show ?thesis by (simp add: get_ranges_def)
qed

text \<open>
  Claim C7: for a bearing along which, at every step \<open>r = 1, ..., rmax\<close>, the
  candidate cell passes the bounds test and holds no obstacle, \<^verbatim>\<open>get_ranges\<close> returns
  exactly \<open>rmax\<close> for that bearing.
\<close>

theorem get_ranges_no_obstacle:
  assumes "has_shape true_map M N" and "i < length meas_phi"
    and "\<forall>r\<in>{1..rmax}. clear_step true_map M N x y (theta + meas_phi ! i) r"
  shows "\<exists>rs. get_ranges true_map (x, y, theta) meas_phi rmax = Inr rs
           \<and> length rs = length meas_phi \<and> rs ! i = of_int rmax"
proof -
  from assms(3) have "\<forall>r\<in>set [1..rmax]. clear_step true_map M N x y (theta + meas_phi ! i) r"
    by simp
  then have "cast_ray true_map x y (theta + meas_phi ! i) [1..rmax] = Inr None"
    by (rule cast_ray_clear [OF assms(1)])
  with get_ranges_nth [OF assms(1), of x y theta meas_phi rmax] assms(2)
  show ?thesis by (auto simp: recorded_range_def)
qed

lemma int_range_3: "{1..3::int} = {1, 2, 3}"
  by auto

lemma free_map_clear:
  "\<forall>r\<in>{1..3}. clear_step (np_zeros 10 10) 10 10 5 5 (0 + [0] ! 0) r"
  by (simp add: int_range_3 clear_step_def candidate_def py_round_def not_in_map_def np_zeros_def)

text \<open>An empty 10 by 10 map, the state \<open>(5, 5, 0)\<close>, the bearing 0 and \<open>rmax = 3\<close>.\<close>

theorem get_ranges_no_obstacle_witness:
  "(case get_ranges (np_zeros 10 10) (5, 5, 0) [0] 3 of
      Inr rs \<Rightarrow> length rs = 1 \<and> rs ! 0 = 3 | Inl e \<Rightarrow> False)"
  using get_ranges_no_obstacle [OF has_shape_zeros _ free_map_clear] by auto

lemma ranges_example: "get_ranges (np_zeros 10 10) (5, 5, 0) [0] 3 = Inr [3]"
proof -
  have "\<forall>r\<in>set [1..3]. clear_step (np_zeros 10 10) 10 10 5 5 (0 + [0] ! 0) r"
    using free_map_clear by simp
  then have "cast_ray (np_zeros 10 10) 5 5 (0 + [0] ! 0) [1..3] = Inr None"
    by (rule cast_ray_clear [OF has_shape_zeros])
  with get_ranges_nth [OF has_shape_zeros, of 10 10 5 5 0 "[0]" 3]
  obtain rs where rs: "get_ranges (np_zeros 10 10) (5, 5, 0) [0] 3 = Inr rs"
    "length rs = 1" "rs ! 0 = 3"
    by (auto simp: recorded_range_def)
  from rs(2,3) have "rs = [3]" by (cases rs) simp_all
  with rs(1) show ?thesis by simp
qed

text \<open>
  Claim C10: \<^verbatim>\<open>get_ranges\<close> reads the map at a candidate cell only after the bounds
  test \<open>0 < xi < M-1\<close>, \<open>0 < yi < N-1\<close>, so that on a map of shape \<open>(M, N)\<close> no read
  is out of bounds and the call returns for every state, bearings and \<open>rmax\<close>; the
  cells of the outermost ring are never inspected, that is, the result is the same on
  every map with the same cells inside the ring; and a beam whose candidate cell first
  fails the bounds test at step \<open>r\<close> records the range \<open>r\<close>, whatever the map holds.
\<close>

theorem get_ranges_map_access:
  assumes "has_shape true_map M N"
  shows "(\<exists>rs. get_ranges true_map (x, y, theta) meas_phi rmax = Inr rs)
       \<and> (\<forall>other. has_shape other M N
             \<and> (\<forall>i j. 0 < i \<and> i < M - 1 \<and> 0 < j \<and> j < N - 1 \<longrightarrow> other ! i ! j = true_map ! i ! j)
             \<longrightarrow> get_ranges other (x, y, theta) meas_phi rmax
                  = get_ranges true_map (x, y, theta) meas_phi rmax)
       \<and> (\<forall>i r. i < length meas_phi \<and> 1 \<le> r \<and> r \<le> rmax
             \<and> not_in_map M N (candidate x y (theta + meas_phi ! i) r)
             \<and> (\<forall>r'\<in>{1..<r}. clear_step true_map M N x y (theta + meas_phi ! i) r')
             \<longrightarrow> (\<exists>rs. get_ranges true_map (x, y, theta) meas_phi rmax = Inr rs
                       \<and> rs ! i = of_int r))"
proof (intro conjI allI impI)
  show "\<exists>rs. get_ranges true_map (x, y, theta) meas_phi rmax = Inr rs"
    using get_ranges_nth [OF assms] by blast
next
  fix other
  assume h: "has_shape other M N
             \<and> (\<forall>i j. 0 < i \<and> i < M - 1 \<and> 0 < j \<and> j < N - 1 \<longrightarrow> other ! i ! j = true_map ! i ! j)"
  then have o: "has_shape other M N"
    and same: "\<And>i j. 0 < i \<Longrightarrow> i < M - 1 \<Longrightarrow> 0 < j \<Longrightarrow> j < N - 1
                 \<Longrightarrow> other ! i ! j = true_map ! i ! j"
    by blast+
  have ray: "cast_ray other x y dir rs = cast_ray true_map x y dir rs" for dir rs
    by (rule cast_ray_ring [OF assms o same])
  from get_ranges_nth [OF assms, of x y theta meas_phi rmax] obtain rs
    where rs: "get_ranges true_map (x, y, theta) meas_phi rmax = Inr rs"
      "length rs = length meas_phi"
      "\<forall>i<length meas_phi. rs ! i =
         recorded_range rmax (cast_ray true_map x y (theta + meas_phi ! i) [1..rmax])"
    by blast
  from get_ranges_nth [OF o, of x y theta meas_phi rmax] obtain rs'
    where rs': "get_ranges other (x, y, theta) meas_phi rmax = Inr rs'"
      "length rs' = length meas_phi"
      "\<forall>i<length meas_phi. rs' ! i =
         recorded_range rmax (cast_ray other x y (theta + meas_phi ! i) [1..rmax])"
    by blast
  have "rs' = rs"
    by (rule nth_equalityI) (use rs rs' ray in simp_all)
  with rs(1) rs'(1)
  show "get_ranges other (x, y, theta) meas_phi rmax = get_ranges true_map (x, y, theta) meas_phi rmax"
    by simp
next
  fix i r
  assume h: "i < length meas_phi \<and> 1 \<le> r \<and> r \<le> rmax
             \<and> not_in_map M N (candidate x y (theta + meas_phi ! i) r)
             \<and> (\<forall>r'\<in>{1..<r}. clear_step true_map M N x y (theta + meas_phi ! i) r')"
  then have i: "i < length meas_phi" and r: "1 \<le> r" "r \<le> rmax"
    and hit: "not_in_map M N (candidate x y (theta + meas_phi ! i) r)"
    and pre: "\<forall>r'\<in>{1..<r}. clear_step true_map M N x y (theta + meas_phi ! i) r'"
    by blast+
  have split: "[1..rmax] = [1..r - 1] @ r # [r + 1..rmax]"
    using r by (rule upto_split3)
  have "\<forall>r'\<in>set [1..r - 1]. clear_step true_map M N x y (theta + meas_phi ! i) r'"
    using pre by auto
  then have "cast_ray true_map x y (theta + meas_phi ! i) [1..rmax]
             = cast_ray true_map x y (theta + meas_phi ! i) (r # [r + 1..rmax])"
    unfolding split by (rule cast_ray_clear_prefix [OF assms])
  also have "\<dots> = Inr (Some r)"
    using hit by (simp add: cast_ray_step [OF assms] del: cast_ray.simps(2))
  finally have "cast_ray true_map x y (theta + meas_phi ! i) [1..rmax] = Inr (Some r)" .
  with get_ranges_nth [OF assms, of x y theta meas_phi rmax] i
  show "\<exists>rs. get_ranges true_map (x, y, theta) meas_phi rmax = Inr rs \<and> rs ! i = of_int r"
    by (auto simp: recorded_range_def)
qed

text \<open>
  An empty 10 by 10 map and the same map with obstacles all along row 9 of the ring:
  from \<open>(5, 5, 0)\<close> the beam of bearing 0 reaches row 9 at step 4 on both.
\<close>

theorem get_ranges_map_access_witness:
  "get_ranges ((np_zeros 10 10)[9 := replicate 10 1]) (5, 5, 0) [0] 10
     = get_ranges (np_zeros 10 10) (5, 5, 0) [0] 10
   \<and> (case get_ranges (np_zeros 10 10) (5, 5, 0) [0] 10 of
        Inr rs \<Rightarrow> rs ! 0 = 4 | Inl e \<Rightarrow> False)"
proof -
  note t = get_ranges_map_access [OF has_shape_zeros, of 10 10 5 5 0 "[0]" 10]
  let ?other = "(np_zeros 10 10)[9 := replicate 10 1]"
  have o: "has_shape ?other 10 10"
    by (simp add: has_shape_def np_zeros_def list_all_length nth_list_update)
  have same: "\<forall>i j. 0 < i \<and> i < (10::nat) - 1 \<and> 0 < j \<and> j < (10::nat) - 1
               \<longrightarrow> ?other ! i ! j = np_zeros 10 10 ! i ! j"
    by (simp add: np_zeros_def)
  from t o same have first: "get_ranges ?other (5, 5, 0) [0] 10
     = get_ranges (np_zeros 10 10) (5, 5, 0) [0] 10"
    by blast
  have hit: "not_in_map 10 10 (candidate 5 5 (0 + [0] ! 0) 4)"
    by (simp add: candidate_def py_round_def not_in_map_def)
  have "{1..<4::int} = {1, 2, 3}" by auto
  then have pre: "\<forall>r'\<in>{1..<4}. clear_step (np_zeros 10 10) 10 10 5 5 (0 + [0] ! 0) r'"
    by (simp add: clear_step_def candidate_def py_round_def not_in_map_def np_zeros_def)
  from t have "(0::nat) < length [0::real] \<and> (1::int) \<le> 4 \<and> (4::int) \<le> 10
             \<and> not_in_map 10 10 (candidate 5 5 (0 + [0] ! 0) 4)
             \<and> (\<forall>r'\<in>{1..<4}. clear_step (np_zeros 10 10) 10 10 5 5 (0 + [0] ! 0) r')
             \<longrightarrow> (\<exists>rs. get_ranges (np_zeros 10 10) (5, 5, 0) [0] 10 = Inr rs
                       \<and> rs ! 0 = of_int 4)"
    by blast
  with hit pre obtain rs where "get_ranges (np_zeros 10 10) (5, 5, 0) [0] 10 = Inr rs" "rs ! 0 = 4"
    by auto
  with first show ?thesis by simp
qed

subsection \<open>The end-to-end example\<close>

lemma single_obstacle_shape: "has_shape single_obstacle_map 10 10"
  by (simp add: single_obstacle_map_def has_shape_def np_zeros_def list_all_length nth_list_update)

lemma single_obstacle_nth:
  "i < 10 \<Longrightarrow> j < 10 \<Longrightarrow> single_obstacle_map ! i ! j = (if i = 5 \<and> j = 5 then 1 else 0)"
  by (simp add: single_obstacle_map_def np_zeros_def nth_list_update)

lemma example_candidate: "candidate 5 0 (pi / 2) r = (5, r)"
  by (simp add: candidate_def py_round_def)

lemma example_ranges: "get_ranges single_obstacle_map (5, 0, pi / 2) [0] 10 = Inr [5]"
proof -
  have "{1..<5::int} = {1, 2, 3, 4}" by auto
  then have pre: "\<forall>r'\<in>{1..<5}. clear_step single_obstacle_map 10 10 5 0 (pi / 2 + [0] ! 0) r'"
    by (simp add: clear_step_def example_candidate not_in_map_def single_obstacle_nth)
  then have "\<forall>r'\<in>set [1..5 - 1]. clear_step single_obstacle_map 10 10 5 0 (pi / 2 + [0] ! 0) r'"
    by simp
  then have "cast_ray single_obstacle_map 5 0 (pi / 2 + [0] ! 0) ([1..5 - 1] @ 5 # [5 + 1..10])
             = cast_ray single_obstacle_map 5 0 (pi / 2 + [0] ! 0) (5 # [5 + 1..10])"
    by (rule cast_ray_clear_prefix [OF single_obstacle_shape])
  moreover have "[1..10] = [1..5 - 1] @ 5 # [5 + 1..10]"
    by (rule upto_split3) simp_all
  moreover have "cast_ray single_obstacle_map 5 0 (pi / 2 + [0] ! 0) (5 # [5 + 1..10]) = Inr (Some 5)"
    by (simp add: cast_ray_step [OF single_obstacle_shape] example_candidate not_in_map_def
        single_obstacle_nth del: cast_ray.simps(2))
  ultimately have ray: "cast_ray single_obstacle_map 5 0 (pi / 2 + [0] ! 0) [1..10] = Inr (Some 5)"
    by simp
  from get_ranges_nth [OF single_obstacle_shape, of 5 0 "pi / 2" "[0]" 10]
  obtain rs where rs: "get_ranges single_obstacle_map (5, 0, pi / 2) [0] 10 = Inr rs"
    "length rs = 1" "rs ! 0 = 5"
    using ray by (auto simp: recorded_range_def)
  from rs(2,3) have "rs = [5]" by (cases rs) simp_all
  with rs(1) show ?thesis by simp
qed

lemma example_cell_range: "cell_range 5 0 5 j = real j"
  by (simp add: cell_range_def)

lemma example_cell_bearing:
  "cell_bearing 5 0 (pi / 2) 5 j = (if j = 0 then - pi / 2 else 0)"
  by (simp add: cell_bearing_def atan2_def py_mod_def)

lemma example_row:
  assumes "0 < alpha" and "alpha < 2" and "0 < beta" and "beta < pi"
  shows "cell_class 5 0 (pi / 2) [0] [5] 10 alpha beta 5 j =
           Inr (Some (if j = 0 then 0.5 else if j < 5 then 0.3 else if j = 5 then 0.7 else 0.5))"
proof -
  have c: "cell_class 5 0 (pi / 2) [0] [5] 10 alpha beta 5 j =
             Inr (classify (real j) (if j = 0 then - pi / 2 else 0) 0 5 10 alpha beta)"
    by (simp add: cell_class_def example_cell_range example_cell_bearing np_argmin_def)
  consider "j = 0" | "0 < j" "j < 5" | "j = 5" | "5 < j" by linarith
  then show ?thesis
  proof cases
    case 1
    then show ?thesis using assms unfolding c by (simp add: classify_def)
  next
    case 2
    then have "real j \<le> 4" by simp
    then show ?thesis using 2 assms unfolding c by (simp add: classify_def)
  next
    case 3
    then show ?thesis using assms unfolding c by (simp add: classify_def)
  next
    case 4
    then have "6 \<le> real j" by simp
    then show ?thesis using 4 assms unfolding c by (simp add: classify_def)
  qed
qed

lemma example_grid:
  assumes "0 < alpha" and "alpha < 2" and "0 < beta" and "beta < pi"
  shows "\<exists>g. inverse_scanner 10 10 10 10 5 0 (pi / 2) [0] [5] 10 alpha beta = Inr g
           \<and> (\<forall>j<10. g ! 5 ! j =
                (if j = 0 then 0.5 else if j < 5 then 0.3 else if j = 5 then 0.7 else 0.5))"
proof -
  have "\<exists>g. inverse_scanner 10 10 10 10 5 0 (pi / 2) [0] [5] 10 alpha beta = Inr g
            \<and> has_shape g 10 10
            \<and> (\<forall>a<10. \<forall>b<10. g ! a ! b =
                 (if a < 10 \<and> b < 10
                  then visited_value (cell_class 5 0 (pi / 2) [0] [5] 10 alpha beta a b)
                  else 0))"
    by (rule inverse_scanner_cells) (simp_all add: cell_class_ok)
  then obtain g where g: "inverse_scanner 10 10 10 10 5 0 (pi / 2) [0] [5] 10 alpha beta = Inr g"
    and cells: "\<forall>a<10. \<forall>b<10. g ! a ! b =
                 (if a < 10 \<and> b < 10
                  then visited_value (cell_class 5 0 (pi / 2) [0] [5] 10 alpha beta a b)
                  else 0)"
    by blast
  have "g ! 5 ! j = (if j = 0 then 0.5 else if j < 5 then 0.3 else if j = 5 then 0.7 else 0.5)"
    if "j < 10" for j
  proof -
    from cells that have "g ! 5 ! j = visited_value (cell_class 5 0 (pi / 2) [0] [5] 10 alpha beta 5 j)"
      by simp
    then show ?thesis by (simp add: example_row [OF assms] visited_value_def)
  qed
  with g show ?thesis by blast
qed

text \<open>
  Claim C5, as the code has it. On the 10 by 10 map with one obstacle at \<open>(5, 5)\<close>,
  from the state \<open>(5, 0, pi/2)\<close> with the single bearing 0 and \<open>rmax = 10\<close>,
  \<^verbatim>\<open>get_ranges\<close> returns the range 5; with \<open>0 < alpha < 2\<close> and \<open>0 < beta < pi\<close> (the
  notebook has \<open>alpha = 1\<close>, \<open>beta = 0.05\<close>) the grid of \<^verbatim>\<open>inverse_scanner\<close> for
  that scan holds 0.7 at \<open>(5, 5)\<close>, 0.3 at \<open>(5, 1)\<close> to \<open>(5, 4)\<close>, and 0.5 at \<open>(5, 6)\<close>
  to \<open>(5, 9)\<close> and at the cell \<open>(5, 0)\<close> of the sensor itself, whose bearing
  \<open>atan2(0, 0) - pi/2\<close> is outside the beam.
\<close>

theorem end_to_end_example:
  assumes "0 < alpha" and "alpha < 2" and "0 < beta" and "beta < pi"
  shows "get_ranges single_obstacle_map (5, 0, pi / 2) [0] 10 = Inr [5]
       \<and> (\<exists>g. inverse_scanner 10 10 10 10 5 0 (pi / 2) [0] [5] 10 alpha beta = Inr g
             \<and> g ! 5 ! 5 = 0.7
             \<and> (\<forall>j\<in>{1..4}. g ! 5 ! j = 0.3)
             \<and> g ! 5 ! 0 = 0.5
             \<and> (\<forall>j\<in>{6..9}. g ! 5 ! j = 0.5))"
proof -
  from example_grid [OF assms] obtain g
    where g: "inverse_scanner 10 10 10 10 5 0 (pi / 2) [0] [5] 10 alpha beta = Inr g"
      and row: "\<forall>j<10. g ! 5 ! j =
                (if j = 0 then 0.5 else if j < 5 then 0.3 else if j = 5 then 0.7 else 0.5)"
    by blast
  have "g ! 5 ! 5 = 0.7" "g ! 5 ! 0 = 0.5" using row by simp_all
  moreover have "\<forall>j\<in>{1..4}. g ! 5 ! j = 0.3" using row by auto
  moreover have "\<forall>j\<in>{6..9}. g ! 5 ! j = 0.5" using row by auto
  ultimately show ?thesis using g example_ranges by blast
qed

text \<open>The notebook's \<open>alpha = 1\<close> and \<open>beta = 0.05\<close>.\<close>

theorem end_to_end_example_witness:
  "get_ranges single_obstacle_map (5, 0, pi / 2) [0] 10 = Inr [5]
   \<and> (case inverse_scanner 10 10 10 10 5 0 (pi / 2) [0] [5] 10 1 0.05 of
        Inr g \<Rightarrow> g ! 5 ! 5 = 0.7 \<and> g ! 5 ! 1 = 0.3 \<and> g ! 5 ! 4 = 0.3
                \<and> g ! 5 ! 0 = 0.5 \<and> g ! 5 ! 6 = 0.5 \<and> g ! 5 ! 9 = 0.5
      | Inl e \<Rightarrow> False)"
proof -
  have "(0.05::real) < 2" by simp
  then have "(0.05::real) < pi" using pi_ge_two by (rule less_le_trans)
  then show ?thesis
    using end_to_end_example [of 1 "0.05"] by auto
qed

text \<open>
  With the notebook's \<open>alpha = 1\<close> and \<open>beta = 0.05\<close> the cell \<open>(5, 0)\<close> is classified
  0.5, not 0.3.
\<close>

theorem end_to_end_example_counterexample:
  "get_ranges single_obstacle_map (5, 0, pi / 2) [0] 10 = Inr [5]
   \<and> (case inverse_scanner 10 10 10 10 5 0 (pi / 2) [0] [5] 10 1 0.05 of
        Inr g \<Rightarrow> g ! 5 ! 0 = 0.5 \<and> g ! 5 ! 0 \<noteq> 0.3
      | Inl e \<Rightarrow> False)"
proof -
  have "(0.05::real) < 2" by simp
  then have "(0.05::real) < pi" using pi_ge_two by (rule less_le_trans)
  then show ?thesis
    using example_grid [of 1 "0.05"] example_ranges by auto
qed

subsection \<open>The log-odds update\<close>

lemma log_odds_cell_real:
  assumes "0 < p" and "p < 1"
  shows "log_odds_cell (Fin p) (Fin l) (Fin l0) = Fin (spec_log_odds p l l0)"
  using assms by (simp add: log_odds_cell_def np_subtract_def spec_log_odds_def)

lemma belief_cell_real: "belief_cell (Fin l) = Fin (spec_belief l)"
proof -
  have "1 + exp l \<noteq> 0" using exp_gt_zero [of l] by linarith
  then show ?thesis by (simp add: belief_cell_def spec_belief_def)
qed

text \<open>On real log odds the belief is strictly between 0 and 1.\<close>

lemma spec_belief_bounds: "0 < spec_belief l \<and> spec_belief l < 1"
proof -
  have e: "0 < exp l" by simp
  then have d: "0 < 1 + exp l" by linarith
  have "0 < exp l / (1 + exp l)" using e d by (rule divide_pos_pos)
  moreover have "exp l / (1 + exp l) < 1" using d by (simp add: divide_less_eq)
  ultimately show ?thesis by (simp add: spec_belief_def)
qed

lemma map_length_eq_nth:
  assumes "map length A = map length B" and "i < length A"
  shows "length A = length B" and "length (A ! i) = length (B ! i)"
proof -
  show len: "length A = length B" using assms(1) by (rule map_eq_imp_length_eq)
  have "map length A ! i = map length B ! i" using assms(1) by simp
  then show "length (A ! i) = length (B ! i)" using assms(2) len by simp
qed

lemma fusion_update_cells:
  assumes run: "fusion_update L invmod L0 = Inr (L', m')"
    and i: "i < length invmod" and j: "j < length (invmod ! i)"
  shows "L' ! i ! j = log_odds_cell (Fin (invmod ! i ! j)) (L ! i ! j) (L0 ! i ! j)"
    and "m' ! i ! j = belief_cell (L' ! i ! j)"
    and "map length L' = map length invmod"
    and "map length m' = map length invmod"
proof -
  from run have s1: "map length invmod = map length L" and s2: "map length L = map length L0"
    by (auto simp: fusion_update_def split: if_splits)
  have lenL: "length L = length invmod" and lenLi: "length (L ! i) = length (invmod ! i)"
    using map_length_eq_nth [OF s1 i] by simp_all
  have iL: "i < length L" using i lenL by simp
  have lenL0: "length L0 = length invmod" and lenL0i: "length (L0 ! i) = length (invmod ! i)"
    using map_length_eq_nth [OF s2 iL] lenL lenLi by simp_all
  let ?row = "\<lambda>prow (lrow, l0row).
                     map2 (\<lambda>p (l, l0). log_odds_cell (Fin p) l l0) prow (zip lrow l0row)"
  from run s1 s2 have L': "L' = map2 ?row invmod (zip L L0)" and m': "m' = map (map belief_cell) L'"
    by (auto simp: fusion_update_def Let_def)
  have lenL': "length L' = length invmod" unfolding L' using lenL lenL0 by simp
  have rowi: "L' ! i = map2 (\<lambda>p (l, l0). log_odds_cell (Fin p) l l0) (invmod ! i) (zip (L ! i) (L0 ! i))"
    unfolding L' using i lenL lenL0 by simp
  have lenrow: "length (L' ! i) = length (invmod ! i)"
    unfolding rowi using lenLi lenL0i by simp
  show c: "L' ! i ! j = log_odds_cell (Fin (invmod ! i ! j)) (L ! i ! j) (L0 ! i ! j)"
    unfolding rowi using j lenLi lenL0i by simp
  show "m' ! i ! j = belief_cell (L' ! i ! j)"
    unfolding m' using i j lenL' lenrow by simp
  have rows: "length (L' ! a) = length (invmod ! a)" if "a < length invmod" for a
  proof -
    have "length (L ! a) = length (invmod ! a)" using map_length_eq_nth(2) [OF s1 that] by simp
    moreover have "length (L0 ! a) = length (L ! a)"
      using map_length_eq_nth(2) [OF s2, of a] that lenL by simp
    ultimately show ?thesis unfolding L' using that lenL lenL0 by simp
  qed
  show sh: "map length L' = map length invmod"
    by (rule nth_equalityI) (simp_all add: lenL' rows)
  show "map length m' = map length invmod"
    unfolding m' using sh by (simp add: comp_def)
qed

lemma fusion_update_ok:
  assumes "map length invmod = map length L" and "map length L = map length L0"
  shows "\<exists>L' m'. fusion_update L invmod L0 = Inr (L', m')"
  using assms by (simp add: fusion_update_def Let_def)

text \<open>
  Claim C2: for an inverse-model grid with all cells strictly between 0 and 1, and
  real-valued grids \<open>L\<close> and \<open>L0\<close> of the same shape, the update returns, per cell,
  \<open>log_odds' = ln(invmod/(1-invmod)) + log_odds - prior_log_odds\<close> and
  \<open>belief' = exp(log_odds')/(1+exp(log_odds'))\<close>.
\<close>

theorem fusion_update_formula:
  assumes shape: "map length invmod = map length L" "map length L = map length L0"
    and range: "\<forall>row\<in>set invmod. \<forall>p\<in>set row. 0 < p \<and> p < 1"
  shows "\<exists>L' m'. fusion_update (map (map Fin) L) invmod (map (map Fin) L0) = Inr (L', m')
           \<and> (\<forall>i<length invmod. \<forall>j<length (invmod ! i).
                 L' ! i ! j = Fin (spec_log_odds (invmod ! i ! j) (L ! i ! j) (L0 ! i ! j))
               \<and> m' ! i ! j = Fin (spec_belief (spec_log_odds (invmod ! i ! j) (L ! i ! j) (L0 ! i ! j))))"
proof -
  have s1: "map length invmod = map length (map (map Fin) L)"
    and s2: "map length (map (map Fin) L) = map length (map (map Fin) L0)"
    using shape by (simp_all add: comp_def)
  from fusion_update_ok [OF s1 s2] obtain L' m'
    where run: "fusion_update (map (map Fin) L) invmod (map (map Fin) L0) = Inr (L', m')"
    by blast
  have "L' ! i ! j = Fin (spec_log_odds (invmod ! i ! j) (L ! i ! j) (L0 ! i ! j))
      \<and> m' ! i ! j = Fin (spec_belief (spec_log_odds (invmod ! i ! j) (L ! i ! j) (L0 ! i ! j)))"
    if i: "i < length invmod" and j: "j < length (invmod ! i)" for i j
  proof -
    have iL: "i < length L" and jL: "j < length (L ! i)"
      using map_length_eq_nth [OF shape(1) i] i j by simp_all
    have iL0: "i < length L0" and jL0: "j < length (L0 ! i)"
      using map_length_eq_nth [OF shape(2) iL] iL jL by simp_all
    have p: "0 < invmod ! i ! j" "invmod ! i ! j < 1"
      using range i j by (auto simp: all_set_conv_all_nth)
    have "L' ! i ! j = log_odds_cell (Fin (invmod ! i ! j)) (Fin (L ! i ! j)) (Fin (L0 ! i ! j))"
      using fusion_update_cells(1) [OF run i j] iL jL iL0 jL0 by simp
    then have l: "L' ! i ! j = Fin (spec_log_odds (invmod ! i ! j) (L ! i ! j) (L0 ! i ! j))"
      by (simp add: log_odds_cell_real [OF p])
    moreover have "m' ! i ! j = belief_cell (L' ! i ! j)"
      by (rule fusion_update_cells(2) [OF run i j])
    ultimately show ?thesis by (simp add: belief_cell_real)
  qed
  with run show ?thesis by blast
qed

text \<open>One cell: the prior 0, the measurement 0.7.\<close>

theorem fusion_update_formula_witness:
  "(case fusion_update [[Fin 0]] [[0.7]] [[Fin 0]] of
      Inr (L', m') \<Rightarrow> L' ! 0 ! 0 = Fin (spec_log_odds 0.7 0 0)
                    \<and> m' ! 0 ! 0 = Fin (spec_belief (spec_log_odds 0.7 0 0))
    | Inl e \<Rightarrow> False)"
  using fusion_update_formula [of "[[0.7]]" "[[0]]" "[[0]]"] by auto

lemma belief_cell_sigmoid:
  assumes "l \<notin> {PInf, NaN}"
  shows "belief_cell l = spec_sigmoid l"
proof (cases l)
  case (Fin a)
  have pos: "0 < exp a" by simp
  have "exp a / (1 + exp a) = 1 / (1 + exp (- a))"
    using pos by (simp add: exp_minus field_simps)
  moreover have "1 + exp a \<noteq> 0" "1 + exp (- a) \<noteq> 0"
    using exp_gt_zero [of a] exp_gt_zero [of "- a"] by linarith+
  ultimately show ?thesis using Fin by (simp add: belief_cell_def spec_sigmoid_def)
next
  case NInf
  then show ?thesis by (simp add: belief_cell_def spec_sigmoid_def)
qed (use assms in simp_all)

lemma log_odds_cell_domain:
  assumes "0 \<le> p" and "p < 1" and "l \<notin> {PInf, NaN}" and "l0 \<notin> {PInf, NInf, NaN}"
  shows "log_odds_cell (Fin p) l l0 \<notin> {PInf, NaN}"
proof -
  from assms(4) obtain v where l0: "l0 = Fin v" by (cases l0) simp_all
  show ?thesis
  proof (cases l)
    case (Fin a)
    then show ?thesis using assms(1,2) l0
      by (simp add: log_odds_cell_def np_subtract_def)
  next
    case NInf
    then show ?thesis using assms(1,2) l0
      by (simp add: log_odds_cell_def np_subtract_def)
  qed (use assms(3) in simp_all)
qed

text \<open>
  Claim C3: after an update, \<open>belief = 1 / (1 + exp(-log_odds))\<close> holds in every cell.
  The hypotheses describe the updates of the simulation: a measurement in \<open>[0, 1)\<close>
  (\<^verbatim>\<open>inverse_scanner\<close> gives 0, 0.3, 0.5 or 0.7), log odds that are real or \<open>-inf\<close>,
  and a real prior; the new log odds are again real or \<open>-inf\<close>.
\<close>

theorem belief_log_odds_invariant:
  assumes "fusion_update L invmod L0 = Inr (L', m')"
    and "i < length invmod" and "j < length (invmod ! i)"
    and "0 \<le> invmod ! i ! j" and "invmod ! i ! j < 1"
    and "L ! i ! j \<notin> {PInf, NaN}" and "L0 ! i ! j \<notin> {PInf, NInf, NaN}"
  shows "m' ! i ! j = spec_sigmoid (L' ! i ! j) \<and> L' ! i ! j \<notin> {PInf, NaN}"
proof -
  have c: "L' ! i ! j = log_odds_cell (Fin (invmod ! i ! j)) (L ! i ! j) (L0 ! i ! j)"
    by (rule fusion_update_cells(1) [OF assms(1-3)])
  have d: "L' ! i ! j \<notin> {PInf, NaN}"
    unfolding c by (rule log_odds_cell_domain [OF assms(4-7)])
  have "m' ! i ! j = belief_cell (L' ! i ! j)"
    by (rule fusion_update_cells(2) [OF assms(1-3)])
  with d show ?thesis by (simp add: belief_cell_sigmoid)
qed

lemma fusion_first_step:
  "fusion_update [[Fin 0]] [[0.7]] [[Fin 0]]
     = Inr ([[Fin (ln (7 / 3))]], [[belief_cell (Fin (ln (7 / 3)))]])"
  by (simp add: fusion_update_def log_odds_cell_def np_subtract_def)

text \<open>One cell: the prior 0, the measurement 0.7.\<close>

theorem belief_log_odds_invariant_witness:
  "(case fusion_update [[Fin 0]] [[0.7]] [[Fin 0]] of
      Inr (L', m') \<Rightarrow> m' ! 0 ! 0 = spec_sigmoid (L' ! 0 ! 0) | Inl e \<Rightarrow> False)"
  using belief_log_odds_invariant [OF fusion_first_step, of 0 0]
  by (simp add: fusion_first_step)

lemma has_shape_lengths: "has_shape g M N \<Longrightarrow> map length g = replicate M N"
  by (rule nth_equalityI) (simp_all add: has_shape_def list_all_length)

lemma initial_log_odds_shape: "map length (initial_log_odds M N) = replicate M N"
  by (simp add: initial_log_odds_def initial_belief_def comp_def)

lemma initial_log_odds_nth: "i < M \<Longrightarrow> j < N \<Longrightarrow> initial_log_odds M N ! i ! j = Fin 0"
  by (simp add: initial_log_odds_def initial_belief_def np_subtract_def)

text \<open>
  Claim C4: from the uniform prior, every cell of the belief grid stays strictly between
  0 and 1. One pass of the loop body on an empty 10 by 10 map, from the state
  \<open>(5, 5, 0)\<close> with the single bearing 0, \<open>rmax = 3\<close>, \<open>alpha = 1\<close> and \<open>beta = 0.05\<close>:
  the scan returns the range 3, the inverse model leaves 0 in the cell \<open>(8, 5)\<close>, the
  logarithm of 0 is \<open>-inf\<close>, and the belief of the cell is exactly 0.
\<close>

theorem belief_reaches_zero:
  "(case sense_and_fuse (np_zeros 10 10) 10 10 (5, 5, 0) [0] 3 1 0.05
           (initial_log_odds 10 10) (initial_log_odds 10 10) of
      Inr (L, m) \<Rightarrow> L ! 8 ! 5 = NInf \<and> m ! 8 ! 5 = Fin 0 | Inl e \<Rightarrow> False)"
proof -
  have "\<exists>g. inverse_scanner 10 10 10 10 5 5 0 [0] [3] 3 1 0.05 = Inr g
            \<and> has_shape g 10 10
            \<and> (\<forall>a<10. \<forall>b<10. g ! a ! b =
                 (if a < 10 \<and> b < 10
                  then visited_value (cell_class 5 5 0 [0] [3] 3 1 0.05 a b)
                  else 0))"
    by (rule inverse_scanner_cells) (simp_all add: cell_class_ok)
  then obtain g where g: "inverse_scanner 10 10 10 10 5 5 0 [0] [3] 3 1 0.05 = Inr g"
    and shape: "has_shape g 10 10"
    and cells: "\<forall>a<10. \<forall>b<10. g ! a ! b =
                 (if a < 10 \<and> b < 10
                  then visited_value (cell_class 5 5 0 [0] [3] 3 1 0.05 a b)
                  else 0)"
    by blast
  from cells have "g ! 8 ! 5 = visited_value (cell_class 5 5 0 [0] [3] 3 1 0.05 8 5)"
    by simp
  then have zero: "g ! 8 ! 5 = 0" using unseen_cell by (simp add: visited_value_def)
  have s: "map length g = map length (initial_log_odds 10 10)"
    using has_shape_lengths [OF shape] by (simp add: initial_log_odds_shape)
  from fusion_update_ok [OF s refl] obtain L m
    where run: "fusion_update (initial_log_odds 10 10) g (initial_log_odds 10 10) = Inr (L, m)"
    by blast
  have i: "8 < length g" and j: "5 < length (g ! 8)"
    using shape by (simp_all add: has_shape_def list_all_length)
  have "L ! 8 ! 5 = log_odds_cell (Fin (g ! 8 ! 5)) (initial_log_odds 10 10 ! 8 ! 5)
                      (initial_log_odds 10 10 ! 8 ! 5)"
    by (rule fusion_update_cells(1) [OF run i j])
  then have l: "L ! 8 ! 5 = NInf"
    by (simp add: zero initial_log_odds_nth log_odds_cell_def np_subtract_def)
  have "m ! 8 ! 5 = belief_cell (L ! 8 ! 5)"
    by (rule fusion_update_cells(2) [OF run i j])
  then have "m ! 8 ! 5 = Fin 0" by (simp add: l belief_cell_def)
  with l run g ranges_example show ?thesis
    by (simp add: sense_and_fuse_def)
qed

end
